theory Spec2Isabelle
  imports Main "HOL-Library.Word" "HOL-Library.Signed_Division"
begin

section \<open>Go values shared by the packages\<close>

text \<open>
  Instants (\<^verbatim>\<open>time.Time\<close>) are nanoseconds since the Unix epoch, durations
  (\<^verbatim>\<open>time.Duration\<close>, an int64) are nanoseconds. Go's \<^verbatim>\<open>int\<close> and
  \<^verbatim>\<open>int64\<close> are modelled as \<open>int\<close> with the 64-bit wrap-around written out by
  \<open>wrap64\<close> wherever the source's arithmetic can leave the range; \<^verbatim>\<open>uint32\<close> is
  \<open>32 word\<close>.
\<close>

type_synonym time = int
type_synonym Duration = int

definition minInt64 :: int where
  "minInt64 = - (2 ^ 63)"

definition maxInt64 :: int where
  "maxInt64 = 2 ^ 63 - 1"

definition wrap64 :: "int \<Rightarrow> int" where
  "wrap64 x = (x + 2 ^ 63) mod 2 ^ 64 - 2 ^ 63"

text \<open>\<^verbatim>\<open>Time.Sub\<close>: the difference of two instants, saturated to the range of a Duration.\<close>

definition Sub :: "time \<Rightarrow> time \<Rightarrow> Duration" where
  "Sub t u = (if t - u < minInt64 then minInt64 else if maxInt64 < t - u then maxInt64 else t - u)"

text \<open>\<^verbatim>\<open>time.Since(t)\<close> is \<^verbatim>\<open>time.Now().Sub(t)\<close>; the reading of the clock is an argument.\<close>

definition Since :: "time \<Rightarrow> time \<Rightarrow> Duration" where
  "Since now t = Sub now t"

text \<open>The zero \<^verbatim>\<open>time.Time\<close> (January 1, year 1, 00:00 UTC).\<close>

definition zeroTime :: time where
  "zeroTime = - 62135596800 * 1000000000"

text \<open>
  What a PostgreSQL statement can fail with: the server or the connection is not available
  (with the driver's message), a unique index or primary key is violated (with the name of the
  constraint), a foreign key is violated, a number does not fit its column, a text is not in
  the input syntax of its column's type, or a string is too long for its column.
\<close>

datatype pgerr =
  Unavailable string | UniqueViolation string | ForeignKeyViolation string | NumericOutOfRange
  | InvalidTextRepresentation | StringDataRightTruncation

text \<open>
  Go \<^verbatim>\<open>error\<close> values: the two sentinels of package resilience, the two of package
  context, an error made from a message (\<^verbatim>\<open>errors.New\<close>, \<^verbatim>\<open>fmt.Errorf\<close> without
  \<^verbatim>\<open>%w\<close>), a database error, and an error wrapped with a prefix by
  \<^verbatim>\<open>fmt.Errorf("prefix: %w", err)\<close>.
\<close>

datatype error =
  ErrCircuitOpen | ErrTooManyRequests | Canceled | DeadlineExceeded
  | Err string | Pg pgerr | Wrapped string error

text \<open>
  The world a call runs in: the clock, and how many times the wrapped \<^verbatim>\<open>func() error\<close>
  has been invoked so far. An operation is given by the outcome of each of its invocations:
  the \<open>k\<close>-th one (counted from 0) returns \<open>fst (fn k)\<close> (\<open>None\<close> is \<^verbatim>\<open>nil\<close>) and
  takes \<open>snd (fn k)\<close> nanoseconds.
\<close>

record world =
  clock :: time
  calls :: nat

type_synonym operation = "nat \<Rightarrow> error option \<times> nat"

definition invoke :: "operation \<Rightarrow> world \<Rightarrow> error option \<times> world" where
  "invoke fn w =
     (fst (fn (calls w)), w\<lparr>clock := clock w + int (snd (fn (calls w))), calls := Suc (calls w)\<rparr>)"

text \<open>\<^verbatim>\<open>time.Sleep(d)\<close> returns at once when \<open>d \<le> 0\<close>, and nothing interrupts it.\<close>

definition Sleep :: "Duration \<Rightarrow> world \<Rightarrow> world" where
  "Sleep d w = w\<lparr>clock := clock w + (if d \<le> 0 then 0 else d)\<rparr>"

text \<open>
  A \<^verbatim>\<open>context.Context\<close>: the instant its Done channel is closed (if ever) and the
  error \<^verbatim>\<open>ctx.Err()\<close> reports from then on. \<open>ctxErr ctx now\<close> is what the
  non-blocking \<^verbatim>\<open>select { case <-ctx.Done(): ... default: }\<close> observes at \<open>now\<close>.
\<close>

record Ctx =
  doneAt :: "time option"
  cause :: error

definition Background :: Ctx where
  "Background = \<lparr>doneAt = None, cause = Canceled\<rparr>"

definition ctxErr :: "Ctx \<Rightarrow> time \<Rightarrow> error option" where
  "ctxErr ctx now =
     (case doneAt ctx of
        None \<Rightarrow> None
      | Some d \<Rightarrow> if d \<le> now then Some (cause ctx) else None)"

section \<open>Package resilience\<close>

subsection \<open>CircuitBreaker\<close>

datatype State = StateClosed | StateOpen | StateHalfOpen

record CircuitBreaker =
  maxFailures :: "32 word"
  timeout :: Duration
  state :: State
  failures :: "32 word"
  lastFailTime :: time

definition NewCircuitBreaker :: "32 word \<Rightarrow> Duration \<Rightarrow> CircuitBreaker" where
  "NewCircuitBreaker m t =
     \<lparr>maxFailures = m, timeout = t, state = StateClosed, failures = 0, lastFailTime = zeroTime\<rparr>"

text \<open>
  \<^verbatim>\<open>Execute\<close>, one caller at a time (the mutex is released while \<^verbatim>\<open>fn\<close> runs;
  interleavings of several callers are not part of this model). The first clock reading is
  \<^verbatim>\<open>time.Since\<close> at entry, the second \<^verbatim>\<open>time.Now()\<close> after \<^verbatim>\<open>fn\<close> returned.
\<close>

definition Execute ::
  "CircuitBreaker \<Rightarrow> operation \<Rightarrow> world \<Rightarrow> error option \<times> CircuitBreaker \<times> world" where
  "Execute cb fn w =
     (if state cb = StateOpen \<and> \<not> (timeout cb < Since (clock w) (lastFailTime cb))
      then (Some ErrCircuitOpen, cb, w)
      else
        (let cb1 = (if state cb = StateOpen
                    then cb\<lparr>state := StateHalfOpen, failures := 0\<rparr> else cb);
             r = invoke fn w;
             w1 = snd r
         in case fst r of
              Some e \<Rightarrow>
                (let cb2 = cb1\<lparr>failures := failures cb1 + 1, lastFailTime := clock w1\<rparr>;
                     cb3 = (if maxFailures cb2 \<le> failures cb2
                            then cb2\<lparr>state := StateOpen\<rparr> else cb2)
                 in (Some e, cb3, w1))
            | None \<Rightarrow>
                (let cb2 = (if state cb1 = StateHalfOpen
                            then cb1\<lparr>state := StateClosed\<rparr> else cb1)
                 in (None, cb2\<lparr>failures := 0\<rparr>, w1))))"

definition GetState :: "CircuitBreaker \<Rightarrow> State" where
  "GetState cb = state cb"

definition Reset :: "CircuitBreaker \<Rightarrow> CircuitBreaker" where
  "Reset cb = cb\<lparr>state := StateClosed, failures := 0\<rparr>"

text \<open>
  A caller that feeds a breaker one \<^verbatim>\<open>Execute\<close> after another: each entry is the time
  the caller lets pass before the call, and the operation it passes.
\<close>

fun feed :: "(nat \<times> operation) list \<Rightarrow> CircuitBreaker \<Rightarrow> world \<Rightarrow> CircuitBreaker \<times> world" where
  "feed [] cb w = (cb, w)"
| "feed ((d, fn) # rest) cb w =
     (case Execute cb fn (w\<lparr>clock := clock w + int d\<rparr>) of
        (r, cb', w') \<Rightarrow> feed rest cb' w')"

definition always_fails :: "operation \<Rightarrow> bool" where
  "always_fails fn = (\<forall>k. fst (fn k) \<noteq> None)"

subsection \<open>RetryWithExponentialBackoff\<close>

text \<open>
  \<^verbatim>\<open>Multiplier\<close> is a float64 in the source and enters only through
  \<^verbatim>\<open>time.Duration(float64(interval) * config.Multiplier)\<close>; the record carries that map
  from the current interval to the next one, so no property below rests on floating point.
\<close>

record RetryConfig =
  MaxAttempts :: int
  InitialInterval :: Duration
  MaxInterval :: Duration
  Multiplier :: "Duration \<Rightarrow> Duration"

text \<open>
  The \<^verbatim>\<open>for attempt := 0; attempt < config.MaxAttempts; attempt++\<close> loop, from the state
  it has at the head of an iteration: the attempt number, the current interval and
  \<^verbatim>\<open>lastErr\<close>.
\<close>

function retry_loop ::
  "Ctx \<Rightarrow> RetryConfig \<Rightarrow> operation \<Rightarrow> int \<Rightarrow> Duration \<Rightarrow> error option \<Rightarrow> world
     \<Rightarrow> error option \<times> world" where
  "retry_loop ctx config fn attempt interval lastErr w =
     (if attempt < MaxAttempts config then
        (if ctxErr ctx (clock w) \<noteq> None then (ctxErr ctx (clock w), w)
         else if fst (invoke fn w) = None then (None, snd (invoke fn w))
         else if attempt < MaxAttempts config - 1 then
           retry_loop ctx config fn (attempt + 1)
             (if MaxInterval config < Multiplier config interval
              then MaxInterval config else Multiplier config interval)
             (fst (invoke fn w)) (Sleep interval (snd (invoke fn w)))
         else retry_loop ctx config fn (attempt + 1) interval (fst (invoke fn w)) (snd (invoke fn w)))
      else (lastErr, w))"
  by pat_completeness auto
termination
  by (relation "measure (\<lambda>(ctx, config, fn, attempt, interval, lastErr, w).
        nat (MaxAttempts config - attempt))") auto

declare retry_loop.simps [simp del]

definition RetryWithExponentialBackoff ::
  "Ctx \<Rightarrow> RetryConfig \<Rightarrow> operation \<Rightarrow> world \<Rightarrow> error option \<times> world" where
  "RetryWithExponentialBackoff ctx config fn w =
     retry_loop ctx config fn 0 (InitialInterval config) None w"

subsection \<open>RateLimiter\<close>

record RateLimiter =
  rate :: int
  interval :: Duration
  tokens :: int
  lastTime :: time

definition NewRateLimiter :: "int \<Rightarrow> Duration \<Rightarrow> time \<Rightarrow> RateLimiter" where
  "NewRateLimiter r i now = \<lparr>rate = r, interval = i, tokens = r, lastTime = now\<rparr>"

text \<open>
  \<^verbatim>\<open>Allow\<close> at clock reading \<open>now\<close>. The integer division of the source truncates
  towards zero (\<open>sdiv\<close>) and panics on a zero interval, which is the result \<open>None\<close>.
\<close>

definition Allow :: "time \<Rightarrow> RateLimiter \<Rightarrow> (bool \<times> RateLimiter) option" where
  "Allow now rl =
     (if interval rl = 0 then None
      else
        (let elapsed = Sub now (lastTime rl);
             tokensToAdd = wrap64 (elapsed sdiv interval rl);
             rl1 = (if 0 < tokensToAdd
                    then (let rl' = rl\<lparr>tokens := wrap64 (tokens rl + tokensToAdd)\<rparr>;
                              rl'' = (if rate rl' < tokens rl' then rl'\<lparr>tokens := rate rl'\<rparr> else rl')
                          in rl''\<lparr>lastTime := now\<rparr>)
                    else rl)
         in if 0 < tokens rl1
            then Some (True, rl1\<lparr>tokens := tokens rl1 - 1\<rparr>)
            else Some (False, rl1)))"

text \<open>The specification's reading of the refill, for comparison: \<open>rate\<close> tokens per whole
  elapsed interval, capped at the capacity.\<close>

definition spec_replenished :: "time \<Rightarrow> RateLimiter \<Rightarrow> int" where
  "spec_replenished now rl =
     min (rate rl) (tokens rl + rate rl * ((now - lastTime rl) div interval rl))"

subsection \<open>Inputs of the package's tests\<close>

text \<open>
  The operation of \<^verbatim>\<open>TestRetryWithExponentialBackoff_Success\<close>, failing its first
  \<open>N\<close> invocations, the configuration of the retry tests, and the context and
  configuration of \<^verbatim>\<open>TestRetryWithExponentialBackoff_ContextCanceled\<close> (cancelled after
  50 ms, first interval 100 ms).
\<close>

definition fails_then_ok :: "nat \<Rightarrow> operation" where
  "fails_then_ok N k = (if k < N then (Some (Err ''temporary error''), 0) else (None, 0))"

definition test_config :: "int \<Rightarrow> RetryConfig" where
  "test_config m = \<lparr>MaxAttempts = m, InitialInterval = 10000000, MaxInterval = 30000000000,
      Multiplier = (\<lambda>d. 2 * d)\<rparr>"

definition cancel_ctx :: Ctx where
  "cancel_ctx = \<lparr>doneAt = Some 50000000, cause = Canceled\<rparr>"

definition cancel_config :: RetryConfig where
  "cancel_config = \<lparr>MaxAttempts = 10, InitialInterval = 100000000, MaxInterval = 30000000000,
      Multiplier = (\<lambda>d. 2 * d)\<rparr>"

text \<open>
  The operations of the breaker's tests (\<^verbatim>\<open>return testErr\<close>, \<^verbatim>\<open>return nil\<close>), and
  breakers in the states the tests and the properties below start from.
\<close>

definition test_failure :: operation where
  "test_failure k = (Some (Err ''test error''), 0)"

definition test_success :: operation where
  "test_success k = (None, 0)"

definition start_world :: world where
  "start_world = \<lparr>clock = 0, calls = 0\<rparr>"

definition after_threshold :: "CircuitBreaker \<times> world" where
  "after_threshold =
     feed [(0, test_failure), (0, test_failure), (0, test_failure)]
       (NewCircuitBreaker 3 5000000000) start_world"

definition after_failed_trial :: "CircuitBreaker \<times> world" where
  "after_failed_trial =
     feed [(0, test_failure), (0, test_failure), (150000000, test_failure)]
       (NewCircuitBreaker 2 100000000) start_world"

definition open_breaker_three :: CircuitBreaker where
  "open_breaker_three =
     \<lparr>maxFailures = 3, timeout = 100, state = StateOpen, failures = 3, lastFailTime = 0\<rparr>"

definition open_breaker :: CircuitBreaker where
  "open_breaker = \<lparr>maxFailures = 1, timeout = 100, state = StateOpen, failures = 1, lastFailTime = 0\<rparr>"

text \<open>A caller making one \<^verbatim>\<open>Allow\<close> after another, at the given clock readings.\<close>

fun allows :: "time list \<Rightarrow> RateLimiter \<Rightarrow> (bool list \<times> RateLimiter) option" where
  "allows [] rl = Some ([], rl)"
| "allows (t # ts) rl =
     (case Allow t rl of
        None \<Rightarrow> None
      | Some (ok, rl') \<Rightarrow>
          (case allows ts rl' of
             None \<Rightarrow> None
           | Some (oks, rl'') \<Rightarrow> Some (ok # oks, rl'')))"

text \<open>A limiter of capacity 2 and interval 100 ms whose tokens are used up.\<close>

definition drained :: RateLimiter where
  "drained = \<lparr>rate = 2, interval = 100000000, tokens = 0, lastTime = 0\<rparr>"

section \<open>Package model\<close>

text \<open>\<^verbatim>\<open>TaskStatus\<close> is a string type with four named values.\<close>

type_synonym TaskStatus = string



definition TaskStatusDone :: TaskStatus where
  "TaskStatusDone = ''done''"

definition TaskStatusFailed :: TaskStatus where
  "TaskStatusFailed = ''failed''"

text \<open>
  \<^verbatim>\<open>JSONB\<close> is a map from keys to JSON values; the values the repository stores are
  numbers and strings. Pointers to strings (\<^verbatim>\<open>*string\<close>) are options.
\<close>

datatype json = JInt int | JStr string

type_synonym JSONB = "(string \<times> json) list"

record Task =
  ID :: string
  TelegramMessageID :: int
  ChatID :: int
  FileID :: string
  Status :: TaskStatus
  OperationID :: "string option"
  Attempts :: int
  ErrorText :: "string option"
  Meta :: JSONB
  CreatedAt :: time
  UpdatedAt :: time

text \<open>The fields of \<^verbatim>\<open>Transcript\<close> carry the prefix \<open>tr_\<close>.\<close>

record Transcript =
  tr_ID :: string
  tr_TaskID :: string
  tr_Text :: string
  tr_RawResponse :: string
  tr_CreatedAt :: time

definition IsCompleted :: "Task \<Rightarrow> bool" where
  "IsCompleted t = (Status t = TaskStatusDone \<or> Status t = TaskStatusFailed)"

definition CanRetry :: "Task \<Rightarrow> bool" where
  "CanRetry t = (Status t = TaskStatusFailed \<and> Attempts t < 3)"

text \<open>\<^verbatim>\<open>t.Attempts++\<close> on a Go \<^verbatim>\<open>int\<close> (64 bits) wraps around.\<close>

definition IncrementAttempts :: "Task \<Rightarrow> Task" where
  "IncrementAttempts t = t\<lparr>Attempts := wrap64 (Attempts t + 1)\<rparr>"

text \<open>The setters read \<^verbatim>\<open>time.Now()\<close>; the reading is their first argument.\<close>

definition SetError :: "time \<Rightarrow> string \<Rightarrow> Task \<Rightarrow> Task" where
  "SetError now errorText t =
     t\<lparr>Status := TaskStatusFailed, ErrorText := Some errorText, UpdatedAt := now\<rparr>"



section \<open>Package speechkit\<close>

text \<open>
  The recognition result as it is decoded from the operation's response. The confidence of
  an alternative and its word timings (floating point, and not read by any function below)
  are left out.
\<close>

record Alternative =
  Text :: string

record Chunk =
  Alternatives :: "Alternative list"
  ChannelTag :: string
  StartTimeMs :: int
  EndTimeMs :: int

record RecognitionResult =
  Chunks :: "Chunk list"

text \<open>\<^verbatim>\<open>GetFullText\<close>: the two nested \<^verbatim>\<open>range\<close> loops, each appending
  \<^verbatim>\<open>alt.Text + " "\<close> to the text accumulated so far.\<close>

definition GetFullText :: "RecognitionResult \<Rightarrow> string" where
  "GetFullText r =
     foldl (\<lambda>text chunk. foldl (\<lambda>text alt. text @ Text alt @ '' '') text (Alternatives chunk))
       [] (Chunks r)"

definition single :: "string \<Rightarrow> Chunk" where
  "single t = \<lparr>Alternatives = [\<lparr>Text = t\<rparr>], ChannelTag = [], StartTimeMs = 0, EndTimeMs = 0\<rparr>"

definition hello_world :: RecognitionResult where
  "hello_world = \<lparr>Chunks = [single ''hello'', single ''world'']\<rparr>"

section \<open>Package queue\<close>

text \<open>The fields of \<^verbatim>\<open>VoiceTask\<close> carry the prefix \<open>vt_\<close>.\<close>

record VoiceTask =
  vt_TaskID :: string
  vt_ChatID :: int
  vt_TelegramMessageID :: int
  vt_FileID :: string
  vt_Duration :: int
  vt_FileSize :: int
  vt_MimeType :: string
  vt_CreatedAt :: time

section \<open>Package storage: the tables of the migration and the statements on them\<close>

text \<open>
  The database holds the rows of \<^verbatim>\<open>tasks\<close> and of \<^verbatim>\<open>transcripts\<close>, in insertion
  order. The constraints are those of \<^verbatim>\<open>001_create_initial_tables.up.sql\<close>: the column
  types \<^verbatim>\<open>UUID\<close> of the ids, \<^verbatim>\<open>VARCHAR(32)\<close> of the status and \<^verbatim>\<open>INT\<close>
  (32 bits) of the attempts, the primary keys, the unique index
  \<^verbatim>\<open>idx_tasks_chat_message\<close> on \<^verbatim>\<open>(chat_id, telegram_message_id)\<close>, the foreign key
  of \<^verbatim>\<open>transcripts.task_id\<close>, and the trigger that sets \<^verbatim>\<open>updated_at\<close> to the
  database's \<^verbatim>\<open>now()\<close> on every update of a task. Every statement takes a first
  argument \<open>fault\<close>: \<open>Some e\<close> when the statement does not reach the database or the database
  does not answer (\<open>e\<close> is the driver's message), in which case nothing is written.
\<close>

record Store =
  tasks :: "Task list"
  transcripts :: "Transcript list"

text \<open>
  The input syntax of PostgreSQL's \<^verbatim>\<open>uuid\<close>: sixteen bytes of two hexadecimal digits
  each, in either case, with an optional hyphen after any group of four digits but the last,
  and optionally the whole in braces. \<open>uuid_bytes n\<close> reads the last \<open>n\<close> bytes.
\<close>

definition is_hex :: "char \<Rightarrow> bool" where
  "is_hex c = (c \<in> set ''0123456789abcdefABCDEF'')"

fun uuid_bytes :: "nat \<Rightarrow> string \<Rightarrow> bool" where
  "uuid_bytes 0 src = (src = [])"
| "uuid_bytes (Suc n) src =
     (case src of
        a # b # rest \<Rightarrow>
          is_hex a \<and> is_hex b \<and>
          uuid_bytes n (if odd (15 - n) \<and> 0 < n \<and> take 1 rest = ''-'' then drop 1 rest else rest)
      | _ \<Rightarrow> False)"

definition is_uuid :: "string \<Rightarrow> bool" where
  "is_uuid src =
     (if take 1 src = ''{''
      then src \<noteq> ''{'' \<and> last src = CHR ''}'' \<and> uuid_bytes 16 (butlast (drop 1 src))
      else uuid_bytes 16 src)"

text \<open>
  What a \<^verbatim>\<open>VARCHAR(32)\<close> column stores of a string: the string if it has at most 32
  characters, its first 32 characters if the rest are spaces, and otherwise nothing (the
  statement fails). A character is taken to be one byte, as in the four statuses.
\<close>

definition varchar32 :: "string \<Rightarrow> string option" where
  "varchar32 v =
     (if length v \<le> 32 then Some v
      else if list_all (\<lambda>c. c = CHR '' '') (drop 32 v) then Some (take 32 v)
      else None)"

definition inInt4 :: "int \<Rightarrow> bool" where
  "inInt4 x = (- (2 ^ 31) \<le> x \<and> x < 2 ^ 31)"

definition same_message :: "Task \<Rightarrow> Task \<Rightarrow> bool" where
  "same_message a b = (ChatID a = ChatID b \<and> TelegramMessageID a = TelegramMessageID b)"



definition UpdateTask :: "string option \<Rightarrow> time \<Rightarrow> Task \<Rightarrow> Store \<Rightarrow> error + Store" where
  "UpdateTask fault dbnow task s =
     (case fault of
        Some e \<Rightarrow> Inl (Wrapped ''failed to update task'' (Pg (Unavailable e)))
      | None \<Rightarrow>
          if \<not> is_uuid (ID task)
          then Inl (Wrapped ''failed to update task'' (Pg InvalidTextRepresentation))
          else if \<not> inInt4 (Attempts task)
          then Inl (Wrapped ''failed to update task'' (Pg NumericOutOfRange))
          else if \<not> list_ex (\<lambda>r. ID r = ID task) (tasks s)
          then Inl (Err ''task not found'')
          else if varchar32 (Status task) = None
          then Inl (Wrapped ''failed to update task'' (Pg StringDataRightTruncation))
          else if list_ex (\<lambda>r. ID r \<noteq> ID task \<and> same_message task r) (tasks s)
          then Inl (Wrapped ''failed to update task''
                      (Pg (UniqueViolation ''idx_tasks_chat_message'')))
          else Inr (s\<lparr>tasks :=
                 map (\<lambda>r. if ID r = ID task
                           then task\<lparr>Status := the (varchar32 (Status task)),
                                     CreatedAt := CreatedAt r, UpdatedAt := dbnow\<rparr> else r)
                   (tasks s)\<rparr>))"


section \<open>Package worker\<close>

text \<open>
  One call of \<^verbatim>\<open>ProcessTask\<close> talks to the database at six places and reads the clock at
  four of them. The environment of a cycle gives, for each place, whether the statement
  fails to reach the database, the database's \<^verbatim>\<open>now()\<close> and the worker's
  \<^verbatim>\<open>time.Now()\<close>; it gives the answers of Telegram, of the object storage and of
  SpeechKit (\<open>Inl\<close> with the message of the error, or \<open>Inr\<close> with the result), the UUID
  drawn for the transcript and the JSON encoding of a result.
\<close>

datatype site = AtGetTask | AtInProgress | AtOperationID | AtTranscript | AtDone | AtFailed

record Env =
  dbFault :: "site \<Rightarrow> string option"
  dbNow :: "site \<Rightarrow> time"
  timeNow :: "site \<Rightarrow> time"
  downloadTelegramFile :: "string \<Rightarrow> string + string"
  GenerateKey :: "string \<Rightarrow> string \<Rightarrow> string"
  UploadFile :: "string \<Rightarrow> string \<Rightarrow> string \<Rightarrow> string + string"
  StartRecognition :: "string \<Rightarrow> string + string"
  WaitForResult :: "string \<Rightarrow> string + RecognitionResult"
  newUUID :: string
  Marshal :: "RecognitionResult \<Rightarrow> string"

text \<open>
  What the bot sends to a chat, as a reply to a message: the recognised text, or the fixed
  notice that the message could not be recognised after several attempts. A sent message is
  the chat, the message replied to and the content. Whether Telegram accepts the message
  changes nothing but the log, as does every \<^verbatim>\<open>logger\<close> call; neither is modelled.
\<close>

datatype Notice = ResultText string | FailureNotice

type_synonym Sent = "int \<times> int \<times> Notice"


text \<open>A statement whose error is logged and otherwise ignored.\<close>

definition logged :: "error + Store \<Rightarrow> Store \<Rightarrow> Store" where
  "logged r s = (case r of Inl e \<Rightarrow> s | Inr s' \<Rightarrow> s')"

definition handleTaskError :: "Env \<Rightarrow> Store \<Rightarrow> Task \<Rightarrow> string \<Rightarrow> Task \<times> Store \<times> Sent list" where
  "handleTaskError env s task errorMsg =
     (let task1 = IncrementAttempts (SetError (timeNow env AtFailed) errorMsg task);
          s1 = logged (UpdateTask (dbFault env AtFailed) (dbNow env AtFailed) task1 s) s
      in (task1, s1,
          if 3 \<le> Attempts task1
          then [(ChatID task1, TelegramMessageID task1, FailureNotice)] else []))"



section \<open>Package bot\<close>







section \<open>Predicates on the database\<close>


definition one_task_per_message :: "Store \<Rightarrow> bool" where
  "one_task_per_message s = distinct (map (\<lambda>t. (ChatID t, TelegramMessageID t)) (tasks s))"

definition wf_store :: "Store \<Rightarrow> bool" where
  "wf_store s = (distinct (map ID (tasks s)) \<and> one_task_per_message s)"




definition uuid1 :: string where
  "uuid1 = ''0b0e7a52-1c3d-4e5f-8a9b-0c1d2e3f4a5b''"

definition uuid2 :: string where
  "uuid2 = ''7f3c2b1a-9d8e-4f6a-b5c4-d3e2f1a0b9c8''"




definition stored1 :: Store where
  "stored1 = \<lparr>tasks = [\<lparr>ID = uuid1, TelegramMessageID = 77, ChatID = 1001, FileID = ''file-1'',
       Status = ''queued'', OperationID = None, Attempts = 0, ErrorText = None,
       Meta = [(''voice_duration'', JInt 4), (''file_size'', JInt 9000),
               (''mime_type'', JStr ''audio/ogg'')],
       CreatedAt = 10, UpdatedAt = 11\<rparr>], transcripts = []\<rparr>"


text \<open>
  The calls a cycle makes outside the database, in the order \<^verbatim>\<open>ProcessTask\<close> makes
  them: the download, the upload, the start of the recognition and the wait for its result.
  The outcome is \<open>Inl\<close> at the first step that fails (a result with no text counts as a
  failure), with the text \<^verbatim>\<open>ProcessTask\<close> passes to \<^verbatim>\<open>handleTaskError\<close> and the
  operation id the task structure holds at that point (the empty string of
  \<^verbatim>\<open>SetInProgress("")\<close> until a recognition has been started); it is \<open>Inr\<close> with the
  operation id and the result when no step fails.
\<close>

definition external_steps ::
  "Env \<Rightarrow> VoiceTask \<Rightarrow> Task \<Rightarrow> (string \<times> string) + (string \<times> RecognitionResult)" where
  "external_steps env voiceTask task =
     (case downloadTelegramFile env (vt_FileID voiceTask) of
        Inl e \<Rightarrow> Inl (''Failed to download file: '' @ e, [])
      | Inr fileData \<Rightarrow>
     (case UploadFile env (GenerateKey env (ID task) ''.ogg'') fileData ''audio/ogg'' of
        Inl e \<Rightarrow> Inl (''Failed to upload to S3: '' @ e, [])
      | Inr s3URL \<Rightarrow>
     (case StartRecognition env s3URL of
        Inl e \<Rightarrow> Inl (''Failed to start recognition: '' @ e, [])
      | Inr operationID \<Rightarrow>
     (case WaitForResult env operationID of
        Inl e \<Rightarrow> Inl (''Recognition failed: '' @ e, operationID)
      | Inr result \<Rightarrow>
          if GetFullText result = [] then Inl (''No text recognized'', operationID)
          else Inr (operationID, result)))))"

text \<open>The database holds a row for the task a cycle has loaded, created when the task was
  and for the same message.\<close>

definition holds_row :: "Task \<Rightarrow> Store \<Rightarrow> bool" where
  "holds_row task0 s =
     (wf_store s \<and>
      (case find (\<lambda>r. ID r = ID task0) (tasks s) of
         None \<Rightarrow> False
       | Some r \<Rightarrow> CreatedAt r = CreatedAt task0 \<and> same_message task0 r))"

text \<open>
  A cycle in which every collaborator answers and the recognition returns the two segments
  "hello" and "world", the queue message of the stored task, and the same cycle with the
  download failing and with the INSERT of the transcript not reaching the database. The
  last table is the stored task after two failed cycles.
\<close>

definition cycle_env :: Env where
  "cycle_env =
     \<lparr>dbFault = (\<lambda>p. None), dbNow = (\<lambda>p. 100), timeNow = (\<lambda>p. 99),
      downloadTelegramFile = (\<lambda>f. Inr ''OggS''),
      GenerateKey = (\<lambda>i e. ''voice/'' @ i @ e),
      UploadFile = (\<lambda>k d c. Inr (''https://storage.yandexcloud.net/bucket/'' @ k)),
      StartRecognition = (\<lambda>u. Inr ''op-123''),
      WaitForResult = (\<lambda>p. Inr hello_world),
      newUUID = uuid2, Marshal = (\<lambda>r. ''{}'')\<rparr>"


definition download_fails :: Env where
  "download_fails = cycle_env\<lparr>downloadTelegramFile := (\<lambda>f. Inl ''status=404'')\<rparr>"

definition transcript_lost :: Env where
  "transcript_lost =
     cycle_env\<lparr>dbFault := (\<lambda>p. if p = AtTranscript then Some ''connection refused'' else None)\<rparr>"

definition failed_twice :: Store where
  "failed_twice =
     \<lparr>tasks = [hd (tasks stored1)\<lparr>Status := TaskStatusFailed, OperationID := Some [],
                 Attempts := 2, ErrorText := Some ''Failed to download file: status=404''\<rparr>],
      transcripts = []\<rparr>"

(*PROPERTIES*)

section \<open>Properties of package resilience\<close>

lemma Sub_range: "minInt64 \<le> Sub t u \<and> Sub t u \<le> maxInt64"
  by (simp add: Sub_def minInt64_def maxInt64_def)

lemma ctxErr_never: "doneAt ctx = None \<Longrightarrow> ctxErr ctx t = None"
  by (simp add: ctxErr_def)

lemma calls_invoke: "calls (snd (invoke fn w)) = Suc (calls w)"
  by (simp add: invoke_def)

lemma fst_invoke: "fst (invoke fn w) = fst (fn (calls w))"
  by (simp add: invoke_def)

lemma calls_Sleep: "calls (Sleep d w) = calls w"
  by (simp add: Sleep_def)

lemma retry_loop_done: "\<not> attempt < MaxAttempts config \<Longrightarrow>
  retry_loop ctx config fn attempt iv lastErr w = (lastErr, w)"
  by (subst retry_loop.simps) simp

lemma retry_loop_cancelled:
  "attempt < MaxAttempts config \<Longrightarrow> ctxErr ctx (clock w) = Some e \<Longrightarrow>
   retry_loop ctx config fn attempt iv lastErr w = (Some e, w)"
  by (subst retry_loop.simps) simp

lemma retry_loop_succeeds:
  "doneAt ctx = None \<Longrightarrow> \<forall>k<N. fst (fn (calls w + k)) \<noteq> None \<Longrightarrow>
   fst (fn (calls w + N)) = None \<Longrightarrow> attempt + int N < MaxAttempts config \<Longrightarrow>
   fst (retry_loop ctx config fn attempt iv lastErr w) = None \<and>
   calls (snd (retry_loop ctx config fn attempt iv lastErr w)) = calls w + N + 1"
proof (induction N arbitrary: attempt iv lastErr w)
  case 0
  then show ?case
    by (subst (1 2) retry_loop.simps) (simp add: ctxErr_never fst_invoke calls_invoke)
next
  case (Suc N)
  have f0: "fst (invoke fn w) \<noteq> None"
    using Suc.prems(2)[rule_format, of 0] by (simp add: fst_invoke)
  let ?w1 = "snd (invoke fn w)"
  have step: "\<And>w2 i2. calls w2 = Suc (calls w) \<Longrightarrow>
      fst (retry_loop ctx config fn (attempt + 1) i2 (fst (invoke fn w)) w2) = None \<and>
      calls (snd (retry_loop ctx config fn (attempt + 1) i2 (fst (invoke fn w)) w2)) = calls w + Suc N + 1"
  proof -
    fix w2 :: world and i2 :: int assume c: "calls w2 = Suc (calls w)"
    have a: "\<forall>k<N. fst (fn (calls w2 + k)) \<noteq> None"
    proof (intro allI impI)
      fix k assume "k < N"
      then have "Suc k < Suc N" by simp
      from Suc.prems(2)[rule_format, OF this] show "fst (fn (calls w2 + k)) \<noteq> None"
        using c by simp
    qed
    have b: "fst (fn (calls w2 + N)) = None"
      using Suc.prems(3) c by simp
    have d: "attempt + 1 + int N < MaxAttempts config"
      using Suc.prems(4) by simp
    show "fst (retry_loop ctx config fn (attempt + 1) i2 (fst (invoke fn w)) w2) = None \<and>
      calls (snd (retry_loop ctx config fn (attempt + 1) i2 (fst (invoke fn w)) w2)) = calls w + Suc N + 1"
      using Suc.IH[OF Suc.prems(1) a b d] c by simp
  qed
  have lt: "attempt < MaxAttempts config" using Suc.prems(4) by simp
  show ?case
    by (subst (1 2) retry_loop.simps)
       (simp add: lt ctxErr_never Suc.prems(1) f0 step calls_invoke calls_Sleep del: One_nat_def)
qed

lemma retry_loop_exhausts:
  "doneAt ctx = None \<Longrightarrow> \<forall>k<n. fst (fn (calls w + k)) \<noteq> None \<Longrightarrow>
   MaxAttempts config - attempt = int n \<Longrightarrow>
   fst (retry_loop ctx config fn attempt iv lastErr w) =
     (if n = 0 then lastErr else fst (fn (calls w + n - 1))) \<and>
   calls (snd (retry_loop ctx config fn attempt iv lastErr w)) = calls w + n"
proof (induction n arbitrary: attempt iv lastErr w)
  case 0
  then show ?case by (simp add: retry_loop_done)
next
  case (Suc n)
  have f0: "fst (invoke fn w) \<noteq> None"
    using Suc.prems(2)[rule_format, of 0] by (simp add: fst_invoke)
  have step: "\<And>w2 i2. calls w2 = Suc (calls w) \<Longrightarrow>
      fst (retry_loop ctx config fn (attempt + 1) i2 (fst (invoke fn w)) w2) = fst (fn (calls w + n)) \<and>
      calls (snd (retry_loop ctx config fn (attempt + 1) i2 (fst (invoke fn w)) w2)) = calls w + Suc n"
  proof -
    fix w2 :: world and i2 :: int assume c: "calls w2 = Suc (calls w)"
    have a: "\<forall>k<n. fst (fn (calls w2 + k)) \<noteq> None"
    proof (intro allI impI)
      fix k assume "k < n"
      then have "Suc k < Suc n" by simp
      from Suc.prems(2)[rule_format, OF this] show "fst (fn (calls w2 + k)) \<noteq> None"
        using c by simp
    qed
    have d: "MaxAttempts config - (attempt + 1) = int n"
      using Suc.prems(3) by simp
    show "fst (retry_loop ctx config fn (attempt + 1) i2 (fst (invoke fn w)) w2) = fst (fn (calls w + n)) \<and>
      calls (snd (retry_loop ctx config fn (attempt + 1) i2 (fst (invoke fn w)) w2)) = calls w + Suc n"
      using Suc.IH[OF Suc.prems(1) a d, of i2 "fst (invoke fn w)"] c
      by (cases n) (simp_all add: fst_invoke)
  qed
  have lt: "attempt < MaxAttempts config" using Suc.prems(3) by simp
  show ?case
    by (subst (1 2) retry_loop.simps)
       (simp add: lt ctxErr_never Suc.prems(1) f0 step calls_invoke calls_Sleep del: One_nat_def)
qed


subsection \<open>Retry: the claims\<close>

text \<open>
  Claim C10. With \<open>MaxAttempts \<le> 0\<close> the loop body never runs:
  \<^verbatim>\<open>RetryWithExponentialBackoff\<close> returns \<^verbatim>\<open>nil\<close> and leaves the world as it
  found it (no invocation of the operation, no sleep), whatever the context, the rest of the
  configuration and the operation are.
\<close>

theorem retry_no_attempts:
  "MaxAttempts config \<le> 0 \<Longrightarrow> RetryWithExponentialBackoff ctx config fn w = (None, w)"
  by (simp add: RetryWithExponentialBackoff_def retry_loop_done)

theorem retry_no_attempts_witness:
  "RetryWithExponentialBackoff \<lparr>doneAt = Some 0, cause = Canceled\<rparr>
     \<lparr>MaxAttempts = 0, InitialInterval = 1000000000, MaxInterval = 30000000000,
      Multiplier = (\<lambda>d. 2 * d)\<rparr>
     (\<lambda>k. (Some (Err ''boom''), 0)) \<lparr>clock = 5, calls = 0\<rparr>
   = (None, \<lparr>clock = 5, calls = 0\<rparr>)"
  using retry_no_attempts [of "\<lparr>MaxAttempts = 0, InitialInterval = 1000000000,
      MaxInterval = 30000000000, Multiplier = (\<lambda>d. 2 * d)\<rparr>"
      "\<lparr>doneAt = Some 0, cause = Canceled\<rparr>" "(\<lambda>k. (Some (Err ''boom''), 0))"
      "\<lparr>clock = 5, calls = 0\<rparr>"]
  by simp

text \<open>
  Claim C5. The operation fails on its first \<open>N\<close> invocations and succeeds on the next one,
  and the context is never cancelled. If \<open>MaxAttempts > N\<close> the call returns \<^verbatim>\<open>nil\<close>
  after exactly \<open>N + 1\<close> invocations; if \<open>1 \<le> MaxAttempts \<le> N\<close> it returns the error of
  the last invocation made (invocation number \<open>MaxAttempts - 1\<close>, a failure) after exactly
  \<open>MaxAttempts\<close> invocations.
\<close>

theorem retry_fails_N_then_succeeds:
  assumes never: "doneAt ctx = None"
    and fails: "\<forall>k<N. fst (fn k) \<noteq> None"
    and succeeds: "fst (fn N) = None"
    and fresh: "calls w = 0"
  shows "(int N < MaxAttempts config \<longrightarrow>
            fst (RetryWithExponentialBackoff ctx config fn w) = None \<and>
            calls (snd (RetryWithExponentialBackoff ctx config fn w)) = N + 1) \<and>
         (1 \<le> MaxAttempts config \<and> MaxAttempts config \<le> int N \<longrightarrow>
            fst (RetryWithExponentialBackoff ctx config fn w)
              = fst (fn (nat (MaxAttempts config) - 1)) \<and>
            fst (RetryWithExponentialBackoff ctx config fn w) \<noteq> None \<and>
            calls (snd (RetryWithExponentialBackoff ctx config fn w)) = nat (MaxAttempts config))"
proof (intro conjI impI)
  assume lt: "int N < MaxAttempts config"
  have a: "\<forall>k<N. fst (fn (calls w + k)) \<noteq> None" using fails fresh by simp
  have b: "fst (fn (calls w + N)) = None" using succeeds fresh by simp
  have c: "0 + int N < MaxAttempts config" using lt by simp
  note r = retry_loop_succeeds [OF never a b c, of "InitialInterval config" None]
  show "fst (RetryWithExponentialBackoff ctx config fn w) = None"
    using r by (simp add: RetryWithExponentialBackoff_def)
  show "calls (snd (RetryWithExponentialBackoff ctx config fn w)) = N + 1"
    using r fresh by (simp add: RetryWithExponentialBackoff_def)
next
  assume le: "1 \<le> MaxAttempts config \<and> MaxAttempts config \<le> int N"
  define n where "n = nat (MaxAttempts config)"
  have n1: "1 \<le> n" and nN: "n \<le> N" using le by (auto simp: n_def)
  have a: "\<forall>k<n. fst (fn (calls w + k)) \<noteq> None" using fails fresh nN by simp
  have d: "MaxAttempts config - 0 = int n" using le by (simp add: n_def)
  note r = retry_loop_exhausts [OF never a d, of "InitialInterval config" None]
  have r1: "fst (retry_loop ctx config fn 0 (InitialInterval config) None w) = fst (fn (n - 1))"
    using r n1 fresh by simp
  have r2: "calls (snd (retry_loop ctx config fn 0 (InitialInterval config) None w)) = n"
    using r fresh by simp
  show e: "fst (RetryWithExponentialBackoff ctx config fn w) = fst (fn (nat (MaxAttempts config) - 1))"
    using r1 by (simp add: RetryWithExponentialBackoff_def n_def)
  have "n - 1 < N" using n1 nN by simp
  then show "fst (RetryWithExponentialBackoff ctx config fn w) \<noteq> None"
    using e fails by (simp add: n_def)
  show "calls (snd (RetryWithExponentialBackoff ctx config fn w)) = nat (MaxAttempts config)"
    using r2 by (simp add: RetryWithExponentialBackoff_def n_def)
qed



theorem retry_fails_N_then_succeeds_witness:
  "fst (RetryWithExponentialBackoff Background (test_config 3) (fails_then_ok 1)
          \<lparr>clock = 0, calls = 0\<rparr>) = None \<and>
   calls (snd (RetryWithExponentialBackoff Background (test_config 3) (fails_then_ok 1)
          \<lparr>clock = 0, calls = 0\<rparr>)) = 2 \<and>
   fst (RetryWithExponentialBackoff Background (test_config 3) (fails_then_ok 5)
          \<lparr>clock = 0, calls = 0\<rparr>) = Some (Err ''temporary error'') \<and>
   calls (snd (RetryWithExponentialBackoff Background (test_config 3) (fails_then_ok 5)
          \<lparr>clock = 0, calls = 0\<rparr>)) = 3"
  using retry_fails_N_then_succeeds [of Background 1 "fails_then_ok 1" "\<lparr>clock = 0, calls = 0\<rparr>"
      "test_config 3"]
    retry_fails_N_then_succeeds [of Background 5 "fails_then_ok 5" "\<lparr>clock = 0, calls = 0\<rparr>"
      "test_config 3"]
  by (simp add: Background_def fails_then_ok_def test_config_def)



text \<open>
  Claim C4. Once the check at the head of an iteration observes the cancellation, the
  operation is not invoked again and the context's error is returned
  (\<open>retry_loop_cancelled\<close>). The wait between attempts, however, is a plain
  \<^verbatim>\<open>time.Sleep\<close>: with the context cancelled 50 ms into a 100 ms backoff, the call
  returns \<^verbatim>\<open>context.Canceled\<close> only when the clock reads 100 ms, after the whole sleep.
\<close>

theorem retry_sleep_not_interrupted:
  "RetryWithExponentialBackoff cancel_ctx cancel_config (\<lambda>k. (Some (Err ''error''), 0))
     \<lparr>clock = 0, calls = 0\<rparr>
   = (Some Canceled, \<lparr>clock = 100000000, calls = 1\<rparr>)"
  apply (simp add: RetryWithExponentialBackoff_def)
  apply (subst retry_loop.simps)
  apply (simp add: cancel_ctx_def cancel_config_def ctxErr_def invoke_def Sleep_def)
  apply (subst retry_loop.simps)
  apply (simp add: ctxErr_def)
  done

subsection \<open>Circuit breaker: the claims\<close>

lemma Execute_fail_fast:
  "state cb = StateOpen \<Longrightarrow> \<not> timeout cb < Since (clock w) (lastFailTime cb) \<Longrightarrow>
   Execute cb fn w = (Some ErrCircuitOpen, cb, w)"
  by (simp add: Execute_def)

lemma Execute_closed_failure:
  assumes "state cb \<noteq> StateOpen" "fst (fn (calls w)) \<noteq> None"
  shows "Execute cb fn w =
     (fst (fn (calls w)),
      cb\<lparr>failures := failures cb + 1, lastFailTime := clock (snd (invoke fn w)),
         state := (if maxFailures cb \<le> failures cb + 1 then StateOpen else state cb)\<rparr>,
      snd (invoke fn w))"
  using assms by (auto simp: Execute_def Let_def fst_invoke split: option.splits)

lemma word_count_step:
  fixes m :: "32 word"
  assumes "Suc j \<le> unat m"
  shows "(m \<le> of_nat j + 1) = (Suc j = unat m)"
proof -
  have "unat m < 2 ^ 32" using unsigned_less[of m, where 'a = nat] by simp
  then have lt: "Suc j < 2 ^ 32" using assms by simp
  have "(of_nat j + 1 :: 32 word) = of_nat (Suc j)" by simp
  moreover have "unat (of_nat (Suc j) :: 32 word) = Suc j"
    using lt by (simp add: unat_of_nat take_bit_nat_eq_self del: of_nat_Suc)
  ultimately show ?thesis using assms by (auto simp: word_le_nat_alt simp del: of_nat_Suc)
qed

lemma feed_failures_stay_closed:
  "state cb \<noteq> StateOpen \<Longrightarrow> failures cb = of_nat j \<Longrightarrow> j + length xs < unat (maxFailures cb) \<Longrightarrow>
   \<forall>x\<in>set xs. always_fails (snd x) \<Longrightarrow>
   state (fst (feed xs cb w)) = state cb \<and> failures (fst (feed xs cb w)) = of_nat (j + length xs) \<and>
   maxFailures (fst (feed xs cb w)) = maxFailures cb \<and> timeout (fst (feed xs cb w)) = timeout cb"
proof (induction xs arbitrary: cb w j)
  case Nil
  then show ?case by simp
next
  case (Cons x xs)
  obtain d fn where x: "x = (d, fn)" by (cases x)
  let ?w = "w\<lparr>clock := clock w + int d\<rparr>"
  have f: "fst (fn (calls ?w)) \<noteq> None" using Cons.prems(4) x by (simp add: always_fails_def)
  let ?cb' = "cb\<lparr>failures := failures cb + 1, lastFailTime := clock (snd (invoke fn ?w)),
         state := (if maxFailures cb \<le> failures cb + 1 then StateOpen else state cb)\<rparr>"
  have E: "Execute cb fn ?w = (fst (fn (calls ?w)), ?cb', snd (invoke fn ?w))"
    using Execute_closed_failure[of cb fn ?w] Cons.prems(1) f by blast
  have nle: "\<not> maxFailures cb \<le> failures cb + 1"
    using word_count_step[of j "maxFailures cb"] Cons.prems(2,3) by simp
  have s': "state ?cb' \<noteq> StateOpen" using nle Cons.prems(1) by simp
  have f': "failures ?cb' = of_nat (Suc j)" using Cons.prems(2) by simp
  have l': "Suc j + length xs < unat (maxFailures ?cb')" using Cons.prems(3) by simp
  have a': "\<forall>x\<in>set xs. always_fails (snd x)" using Cons.prems(4) by simp
  from Cons.IH[OF s' f' l' a', of "snd (invoke fn ?w)"] nle
  show ?case by (simp add: x E)
qed

lemma feed_append:
  "feed (xs @ ys) cb w = feed ys (fst (feed xs cb w)) (snd (feed xs cb w))"
  by (induction xs arbitrary: cb w) (auto split: prod.splits)

lemma calls_feed_failures:
  "state cb \<noteq> StateOpen \<Longrightarrow> failures cb = of_nat j \<Longrightarrow> j + length xs \<le> unat (maxFailures cb) \<Longrightarrow>
   \<forall>x\<in>set xs. always_fails (snd x) \<Longrightarrow> calls (snd (feed xs cb w)) = calls w + length xs"
proof (induction xs arbitrary: cb w j)
  case Nil
  then show ?case by simp
next
  case (Cons x xs)
  obtain d fn where x: "x = (d, fn)" by (cases x)
  let ?w = "w\<lparr>clock := clock w + int d\<rparr>"
  have f: "fst (fn (calls ?w)) \<noteq> None" using Cons.prems(4) x by (simp add: always_fails_def)
  let ?cb' = "cb\<lparr>failures := failures cb + 1, lastFailTime := clock (snd (invoke fn ?w)),
         state := (if maxFailures cb \<le> failures cb + 1 then StateOpen else state cb)\<rparr>"
  have E: "Execute cb fn ?w = (fst (fn (calls ?w)), ?cb', snd (invoke fn ?w))"
    using Execute_closed_failure[of cb fn ?w] Cons.prems(1) f by blast
  show ?case
  proof (cases xs)
    case Nil
    then show ?thesis by (simp add: x E calls_invoke)
  next
    case (Cons y ys)
    have nle: "\<not> maxFailures cb \<le> failures cb + 1"
      using word_count_step[of j "maxFailures cb"] Cons.prems(2,3) Cons by simp
    have s': "state ?cb' \<noteq> StateOpen" using nle Cons.prems(1) by simp
    have f': "failures ?cb' = of_nat (Suc j)" using Cons.prems(2) by simp
    have l': "Suc j + length xs \<le> unat (maxFailures ?cb')" using Cons.prems(3) by simp
    have a': "\<forall>x\<in>set xs. always_fails (snd x)" using Cons.prems(4) by simp
    from Cons.IH[OF s' f' l' a', of "snd (invoke fn ?w)"]
    show ?thesis by (simp add: x E calls_invoke)
  qed
qed

text \<open>
  Claim C6. A breaker that is not Open and counts no failure (as \<^verbatim>\<open>NewCircuitBreaker\<close>
  returns it, and as every success and \<^verbatim>\<open>Reset\<close> leave it), with a threshold
  \<open>maxFailures \<ge> 1\<close>, is fed \<open>maxFailures\<close> calls that all fail, whatever time passes
  between them. Every one of them invokes its function, the breaker is still in its
  starting state before the last of them and reports Open right after it, and the time of
  the last failure is the clock at that moment. Any breaker that is Open refuses a call made
  while \<^verbatim>\<open>time.Since(lastFailTime)\<close> does not exceed the cooldown: it returns
  \<^verbatim>\<open>ErrCircuitOpen\<close> and leaves the breaker and the world (the invocation count
  included) unchanged, whatever the function is.
\<close>

theorem breaker_opens_at_threshold_and_fails_fast:
  assumes notopen: "state cb \<noteq> StateOpen" and zero: "failures cb = 0"
    and pos: "maxFailures cb \<noteq> 0"
    and len: "length xs = unat (maxFailures cb)"
    and fail: "\<forall>x\<in>set xs. always_fails (snd x)"
  shows "GetState (fst (feed xs cb w)) = StateOpen \<and>
         GetState (fst (feed (butlast xs) cb w)) = state cb \<and>
         calls (snd (feed xs cb w)) = calls w + length xs \<and>
         lastFailTime (fst (feed xs cb w)) = clock (snd (feed xs cb w)) \<and>
         (GetState cb2 = StateOpen \<and> \<not> timeout cb2 < Since (clock w2) (lastFailTime cb2) \<longrightarrow>
            Execute cb2 fn2 w2 = (Some ErrCircuitOpen, cb2, w2))"
proof -
  have "unat (maxFailures cb) \<noteq> 0" using pos by (simp add: unat_eq_0)
  then have ne: "xs \<noteq> []" using len by auto
  define ys where "ys = butlast xs"
  obtain d fn where xs: "xs = ys @ [(d, fn)]"
    using ne by (metis ys_def append_butlast_last_id surj_pair)
  have lys: "0 + length ys < unat (maxFailures cb)" using len xs by simp
  have fys: "\<forall>x\<in>set ys. always_fails (snd x)" using fail xs by simp
  have f0: "failures cb = of_nat 0" using zero by simp
  note st = feed_failures_stay_closed[OF notopen f0 lys fys, of w]
  let ?cb1 = "fst (feed ys cb w)" and ?w1 = "snd (feed ys cb w)"
  let ?w = "?w1\<lparr>clock := clock ?w1 + int d\<rparr>"
  have s1: "state ?cb1 \<noteq> StateOpen" using st notopen by simp
  have ff: "fst (fn (calls ?w)) \<noteq> None" using fail xs by (simp add: always_fails_def)
  have E: "Execute ?cb1 fn ?w = (fst (fn (calls ?w)),
      ?cb1\<lparr>failures := failures ?cb1 + 1, lastFailTime := clock (snd (invoke fn ?w)),
         state := (if maxFailures ?cb1 \<le> failures ?cb1 + 1 then StateOpen else state ?cb1)\<rparr>,
      snd (invoke fn ?w))"
    using Execute_closed_failure[of ?cb1 fn ?w] s1 ff by blast
  have le: "maxFailures ?cb1 \<le> failures ?cb1 + 1"
    using word_count_step[of "length ys" "maxFailures cb"] st len xs by simp
  have a: "GetState (fst (feed xs cb w)) = StateOpen"
    using le by (simp add: xs feed_append E GetState_def)
  have b: "GetState (fst (feed (butlast xs) cb w)) = state cb"
    using st by (simp add: ys_def GetState_def)
  have c: "calls (snd (feed xs cb w)) = calls w + length xs"
    using calls_feed_failures[OF notopen f0 _ fail, of w] len by simp
  have d: "lastFailTime (fst (feed xs cb w)) = clock (snd (feed xs cb w))"
    by (simp add: xs feed_append E)
  have e: "GetState cb2 = StateOpen \<and> \<not> timeout cb2 < Since (clock w2) (lastFailTime cb2) \<longrightarrow>
            Execute cb2 fn2 w2 = (Some ErrCircuitOpen, cb2, w2)"
    by (simp add: GetState_def Execute_fail_fast)
  show ?thesis using a b c d e by blast
qed

lemma Since_self: "Since t t = 0"
  by (simp add: Since_def Sub_def minInt64_def maxInt64_def)

theorem breaker_opens_at_threshold_and_fails_fast_witness:
  "GetState (fst after_threshold) = StateOpen \<and>
   calls (snd after_threshold) = 3 \<and>
   Execute (fst after_threshold) test_success (snd after_threshold)
     = (Some ErrCircuitOpen, fst after_threshold, snd after_threshold)"
proof -
  let ?xs = "[(0, test_failure), (0, test_failure), (0, test_failure)]"
  let ?cb = "NewCircuitBreaker 3 5000000000"
  have h1: "state ?cb \<noteq> StateOpen" by (simp add: NewCircuitBreaker_def)
  have h2: "failures ?cb = 0" by (simp add: NewCircuitBreaker_def)
  have h3: "maxFailures ?cb \<noteq> 0" by (simp add: NewCircuitBreaker_def)
  have h4: "length ?xs = unat (maxFailures ?cb)" by (simp add: NewCircuitBreaker_def)
  have h5: "\<forall>x\<in>set ?xs. always_fails (snd x)" by (simp add: always_fails_def test_failure_def)
  note t = breaker_opens_at_threshold_and_fails_fast[OF h1 h2 h3 h4 h5,
      of start_world "fst after_threshold" "snd after_threshold" test_success]
  have ev: "after_threshold =
      (\<lparr>maxFailures = 3, timeout = 5000000000, state = StateOpen, failures = 3, lastFailTime = 0\<rparr>,
       \<lparr>clock = 0, calls = 3\<rparr>)"
    by (simp add: after_threshold_def NewCircuitBreaker_def start_world_def test_failure_def
        Execute_def invoke_def Let_def word_le_nat_alt)
  have c: "\<not> timeout (fst after_threshold) < Since (clock (snd after_threshold))
      (lastFailTime (fst after_threshold))"
    by (simp add: ev Since_self)
  show ?thesis using t c by (simp add: after_threshold_def start_world_def)
qed

text \<open>The call an Open breaker lets through once its cooldown is exceeded.\<close>

lemma trial_step:
  assumes opn: "state cb = StateOpen"
    and cool: "timeout cb < Since (clock w) (lastFailTime cb)"
  shows "fst (Execute cb fn w) = fst (fn (calls w)) \<and>
         calls (snd (snd (Execute cb fn w))) = calls w + 1 \<and>
         (fst (fn (calls w)) = None \<longrightarrow>
            state (fst (snd (Execute cb fn w))) = StateClosed \<and>
            failures (fst (snd (Execute cb fn w))) = 0) \<and>
         (fst (fn (calls w)) \<noteq> None \<longrightarrow>
            failures (fst (snd (Execute cb fn w))) = 1 \<and>
            lastFailTime (fst (snd (Execute cb fn w))) = clock (snd (snd (Execute cb fn w))) \<and>
            state (fst (snd (Execute cb fn w)))
              = (if maxFailures cb \<le> 1 then StateOpen else StateHalfOpen)) \<and>
         (fst (fn (calls w)) \<noteq> None \<and> maxFailures cb \<le> 1 \<and>
          \<not> timeout cb < Since (clock w2) (clock (snd (snd (Execute cb fn w)))) \<longrightarrow>
            Execute (fst (snd (Execute cb fn w))) fn2 w2
              = (Some ErrCircuitOpen, fst (snd (Execute cb fn w)), w2)) \<and>
         (fst (fn (calls w)) \<noteq> None \<and> \<not> maxFailures cb \<le> 1 \<longrightarrow>
            fst (Execute (fst (snd (Execute cb fn w))) fn2 w2) = fst (fn2 (calls w2)) \<and>
            calls (snd (snd (Execute (fst (snd (Execute cb fn w))) fn2 w2))) = calls w2 + 1)"
proof (cases "fst (fn (calls w))")
  case None
  then show ?thesis using opn cool
    by (simp add: Execute_def Let_def invoke_def)
next
  case (Some e)
  let ?w1 = "snd (invoke fn w)"
  let ?cb' = "cb\<lparr>state := (if maxFailures cb \<le> 1 then StateOpen else StateHalfOpen),
      failures := 1, lastFailTime := clock ?w1\<rparr>"
  have E: "Execute cb fn w = (Some e, ?cb', ?w1)"
    using opn cool Some by (simp add: Execute_def Let_def invoke_def)
  have p1: "maxFailures cb \<le> 1 \<Longrightarrow> \<not> timeout cb < Since (clock w2) (clock ?w1) \<Longrightarrow>
      Execute ?cb' fn2 w2 = (Some ErrCircuitOpen, ?cb', w2)"
    by (rule Execute_fail_fast) simp_all
  have p2: "\<not> maxFailures cb \<le> 1 \<Longrightarrow>
      fst (Execute ?cb' fn2 w2) = fst (fn2 (calls w2)) \<and>
      calls (snd (snd (Execute ?cb' fn2 w2))) = calls w2 + 1"
    by (simp add: Execute_def Let_def invoke_def split: option.splits)
  show ?thesis using Some p1 p2 by (simp add: E calls_invoke)
qed

lemma feed_failures_open:
  assumes notopen: "state cb \<noteq> StateOpen" and cnt: "failures cb = of_nat j"
    and ne: "xs \<noteq> []"
    and len: "j + length xs = unat (maxFailures cb)"
    and fail: "\<forall>x\<in>set xs. always_fails (snd x)"
  shows "state (fst (feed xs cb w)) = StateOpen"
    and "lastFailTime (fst (feed xs cb w)) = clock (snd (feed xs cb w))"
proof -
  define ys where "ys = butlast xs"
  obtain d fn where xs: "xs = ys @ [(d, fn)]"
    using ne by (metis ys_def append_butlast_last_id surj_pair)
  have lys: "j + length ys < unat (maxFailures cb)" using len xs by simp
  have fys: "\<forall>x\<in>set ys. always_fails (snd x)" using fail xs by simp
  note st = feed_failures_stay_closed[OF notopen cnt lys fys, of w]
  let ?cb1 = "fst (feed ys cb w)" and ?w1 = "snd (feed ys cb w)"
  let ?w = "?w1\<lparr>clock := clock ?w1 + int d\<rparr>"
  have s1: "state ?cb1 \<noteq> StateOpen" using st notopen by simp
  have ff: "fst (fn (calls ?w)) \<noteq> None" using fail xs by (simp add: always_fails_def)
  have E: "Execute ?cb1 fn ?w = (fst (fn (calls ?w)),
      ?cb1\<lparr>failures := failures ?cb1 + 1, lastFailTime := clock (snd (invoke fn ?w)),
         state := (if maxFailures ?cb1 \<le> failures ?cb1 + 1 then StateOpen else state ?cb1)\<rparr>,
      snd (invoke fn ?w))"
    using Execute_closed_failure[of ?cb1 fn ?w] s1 ff by blast
  have le: "maxFailures ?cb1 \<le> failures ?cb1 + 1"
    using word_count_step[of "j + length ys" "maxFailures cb"] st len xs by simp
  show "state (fst (feed xs cb w)) = StateOpen"
    using le by (simp add: xs feed_append E)
  show "lastFailTime (fst (feed xs cb w)) = clock (snd (feed xs cb w))"
    by (simp add: xs feed_append E)
qed

lemma failed_trial_breaker:
  assumes opn: "state cb = StateOpen"
    and cool: "timeout cb < Since (clock w) (lastFailTime cb)"
    and f: "fst (fn (calls w)) \<noteq> None"
    and m: "2 \<le> unat (maxFailures cb)"
  shows "state (fst (snd (Execute cb fn w))) = StateHalfOpen"
    and "failures (fst (snd (Execute cb fn w))) = of_nat 1"
    and "maxFailures (fst (snd (Execute cb fn w))) = maxFailures cb"
proof -
  have n: "\<not> maxFailures cb \<le> 1" using m by (simp add: word_le_nat_alt)
  show "state (fst (snd (Execute cb fn w))) = StateHalfOpen"
    "failures (fst (snd (Execute cb fn w))) = of_nat 1"
    "maxFailures (fst (snd (Execute cb fn w))) = maxFailures cb"
    using opn cool f n by (auto simp: Execute_def Let_def invoke_def split: option.splits)
qed

text \<open>
  Claim C2, as amended. An Open breaker whose cooldown is exceeded
  (\<^verbatim>\<open>time.Since(lastFailTime) > timeout\<close>) runs the next call: the function is invoked once
  and its result returned. A successful trial leaves the breaker Closed with a failure count
  of 0. A failed trial leaves the count at 1 and restarts the cooldown clock at the time of
  that failure; it re-opens the breaker exactly when \<open>maxFailures \<le> 1\<close>, and then calls
  within the new cooldown fail fast. With \<open>maxFailures > 1\<close> the breaker is Half-Open after
  the failed trial and the next call is passed to its function; as long as the failures that
  follow, counted with the trial, stay below \<open>maxFailures\<close>, every one of these calls is
  invoked and the breaker stays Half-Open; the failure that brings the count, trial
  included, to \<open>maxFailures\<close> re-opens the breaker, with the cooldown clock at that failure.
\<close>

theorem breaker_trial_after_cooldown:
  assumes opn: "state cb = StateOpen"
    and cool: "timeout cb < Since (clock w) (lastFailTime cb)"
  shows "fst (Execute cb fn w) = fst (fn (calls w)) \<and>
         calls (snd (snd (Execute cb fn w))) = calls w + 1 \<and>
         (fst (fn (calls w)) = None \<longrightarrow>
            state (fst (snd (Execute cb fn w))) = StateClosed \<and>
            failures (fst (snd (Execute cb fn w))) = 0) \<and>
         (fst (fn (calls w)) \<noteq> None \<longrightarrow>
            failures (fst (snd (Execute cb fn w))) = 1 \<and>
            lastFailTime (fst (snd (Execute cb fn w))) = clock (snd (snd (Execute cb fn w))) \<and>
            state (fst (snd (Execute cb fn w)))
              = (if maxFailures cb \<le> 1 then StateOpen else StateHalfOpen)) \<and>
         (fst (fn (calls w)) \<noteq> None \<and> maxFailures cb \<le> 1 \<and>
          \<not> timeout cb < Since (clock w2) (clock (snd (snd (Execute cb fn w)))) \<longrightarrow>
            Execute (fst (snd (Execute cb fn w))) fn2 w2
              = (Some ErrCircuitOpen, fst (snd (Execute cb fn w)), w2)) \<and>
         (fst (fn (calls w)) \<noteq> None \<and> \<not> maxFailures cb \<le> 1 \<longrightarrow>
            fst (Execute (fst (snd (Execute cb fn w))) fn2 w2) = fst (fn2 (calls w2)) \<and>
            calls (snd (snd (Execute (fst (snd (Execute cb fn w))) fn2 w2))) = calls w2 + 1) \<and>
         (fst (fn (calls w)) \<noteq> None \<and> (\<forall>x\<in>set ys. always_fails (snd x)) \<and>
          Suc (length ys) < unat (maxFailures cb) \<longrightarrow>
            GetState (fst (feed ys (fst (snd (Execute cb fn w))) w3)) = StateHalfOpen \<and>
            calls (snd (feed ys (fst (snd (Execute cb fn w))) w3)) = calls w3 + length ys) \<and>
         (fst (fn (calls w)) \<noteq> None \<and> (\<forall>x\<in>set xs. always_fails (snd x)) \<and> xs \<noteq> [] \<and>
          Suc (length xs) = unat (maxFailures cb) \<longrightarrow>
            GetState (fst (feed (butlast xs) (fst (snd (Execute cb fn w))) w3)) = StateHalfOpen \<and>
            GetState (fst (feed xs (fst (snd (Execute cb fn w))) w3)) = StateOpen \<and>
            calls (snd (feed xs (fst (snd (Execute cb fn w))) w3)) = calls w3 + length xs \<and>
            lastFailTime (fst (feed xs (fst (snd (Execute cb fn w))) w3))
              = clock (snd (feed xs (fst (snd (Execute cb fn w))) w3)))"
proof -
  let ?cb' = "fst (snd (Execute cb fn w))"
  have stay: "GetState (fst (feed zs ?cb' w3)) = StateHalfOpen \<and>
      calls (snd (feed zs ?cb' w3)) = calls w3 + length zs"
    if f: "fst (fn (calls w)) \<noteq> None" and a: "\<forall>x\<in>set zs. always_fails (snd x)"
      and l: "Suc (length zs) < unat (maxFailures cb)" for zs
  proof -
    have m: "2 \<le> unat (maxFailures cb)" using l by simp
    note b = failed_trial_breaker[of cb w fn, OF opn cool f m]
    have no: "state ?cb' \<noteq> StateOpen" using b(1) by simp
    have l1: "1 + length zs < unat (maxFailures ?cb')" using l b(3) by simp
    have l2: "1 + length zs \<le> unat (maxFailures ?cb')" using l b(3) by simp
    show ?thesis
      using feed_failures_stay_closed[OF no b(2) l1 a, of w3]
        calls_feed_failures[OF no b(2) l2 a, of w3] b(1)
      by (simp add: GetState_def)
  qed
  have reopen: "GetState (fst (feed (butlast zs) ?cb' w3)) = StateHalfOpen \<and>
      GetState (fst (feed zs ?cb' w3)) = StateOpen \<and>
      calls (snd (feed zs ?cb' w3)) = calls w3 + length zs \<and>
      lastFailTime (fst (feed zs ?cb' w3)) = clock (snd (feed zs ?cb' w3))"
    if f: "fst (fn (calls w)) \<noteq> None" and a: "\<forall>x\<in>set zs. always_fails (snd x)"
      and ne: "zs \<noteq> []" and l: "Suc (length zs) = unat (maxFailures cb)" for zs
  proof -
    have "1 \<le> length zs" using ne by (cases zs) simp_all
    then have m: "2 \<le> unat (maxFailures cb)" using l by simp
    note b = failed_trial_breaker[of cb w fn, OF opn cool f m]
    have no: "state ?cb' \<noteq> StateOpen" using b(1) by simp
    have l0: "1 + length zs = unat (maxFailures ?cb')" using l b(3) by simp
    have l2: "1 + length zs \<le> unat (maxFailures ?cb')" using l b(3) by simp
    have ab: "\<forall>x\<in>set (butlast zs). always_fails (snd x)" using a by (auto dest: in_set_butlastD)
    have lb: "Suc (length (butlast zs)) < unat (maxFailures cb)" using l ne by simp
    show ?thesis
      using feed_failures_open[OF no b(2) ne l0 a, of w3]
        calls_feed_failures[OF no b(2) l2 a, of w3] stay[OF f ab lb]
      by (simp add: GetState_def)
  qed
  show ?thesis using trial_step[of cb w fn w2 fn2, OF opn cool] stay[of ys] reopen[of xs] by blast
qed


theorem breaker_trial_after_cooldown_witness:
  "Execute open_breaker test_success \<lparr>clock = 150, calls = 0\<rparr>
     = (None, open_breaker\<lparr>state := StateClosed, failures := 0\<rparr>, \<lparr>clock = 150, calls = 1\<rparr>) \<and>
   fst (Execute open_breaker test_failure \<lparr>clock = 150, calls = 0\<rparr>) = Some (Err ''test error'') \<and>
   fst (snd (Execute open_breaker test_failure \<lparr>clock = 150, calls = 0\<rparr>))
     = open_breaker\<lparr>lastFailTime := 150\<rparr> \<and>
   Execute (open_breaker\<lparr>lastFailTime := 150\<rparr>) test_success \<lparr>clock = 250, calls = 1\<rparr>
     = (Some ErrCircuitOpen, open_breaker\<lparr>lastFailTime := 150\<rparr>, \<lparr>clock = 250, calls = 1\<rparr>) \<and>
   fst (snd (Execute open_breaker_three test_failure \<lparr>clock = 150, calls = 0\<rparr>))
     = open_breaker_three\<lparr>state := StateHalfOpen, failures := 1, lastFailTime := 150\<rparr> \<and>
   fst (Execute (open_breaker_three\<lparr>state := StateHalfOpen, failures := 1, lastFailTime := 150\<rparr>)
          test_failure \<lparr>clock = 150, calls = 1\<rparr>) = Some (Err ''test error'') \<and>
   GetState (fst (feed [(0, test_failure)]
      (open_breaker_three\<lparr>state := StateHalfOpen, failures := 1, lastFailTime := 150\<rparr>)
      \<lparr>clock = 150, calls = 1\<rparr>)) = StateHalfOpen \<and>
   GetState (fst (feed [(0, test_failure), (0, test_failure)]
      (open_breaker_three\<lparr>state := StateHalfOpen, failures := 1, lastFailTime := 150\<rparr>)
      \<lparr>clock = 150, calls = 1\<rparr>)) = StateOpen \<and>
   calls (snd (feed [(0, test_failure), (0, test_failure)]
      (open_breaker_three\<lparr>state := StateHalfOpen, failures := 1, lastFailTime := 150\<rparr>)
      \<lparr>clock = 150, calls = 1\<rparr>)) = 3"
proof -
  let ?w = "\<lparr>clock = 150, calls = 0\<rparr>" and ?w1 = "\<lparr>clock = 150, calls = 1\<rparr>"
  have g1: "state open_breaker_three = StateOpen" by (simp add: open_breaker_three_def)
  have g2: "timeout open_breaker_three < Since (clock ?w) (lastFailTime open_breaker_three)"
    by (simp add: open_breaker_three_def Since_def Sub_def minInt64_def maxInt64_def)
  note g = breaker_trial_after_cooldown[where cb = open_breaker_three and w = ?w
      and fn = test_failure and ?w2.0 = ?w1 and ?fn2.0 = test_failure
      and ys = "[(0, test_failure)]" and xs = "[(0, test_failure), (0, test_failure)]"
      and ?w3.0 = ?w1, OF g1 g2]
  have e3: "Execute open_breaker_three test_failure ?w
     = (Some (Err ''test error''),
        open_breaker_three\<lparr>state := StateHalfOpen, failures := 1, lastFailTime := 150\<rparr>, ?w1)"
    by (simp add: Execute_def open_breaker_three_def test_failure_def invoke_def Let_def
        Since_def Sub_def minInt64_def maxInt64_def word_le_nat_alt)
  have m3: "\<not> maxFailures open_breaker_three \<le> 1" "unat (maxFailures open_breaker_three) = 3"
    by (simp_all add: open_breaker_three_def word_le_nat_alt)
  have af: "always_fails test_failure" by (simp add: always_fails_def test_failure_def)
  have tf: "fst (test_failure k) \<noteq> None" for k by (simp add: test_failure_def)
  have h1: "state open_breaker = StateOpen" by (simp add: open_breaker_def)
  have h2: "timeout open_breaker < Since (clock ?w) (lastFailTime open_breaker)"
    by (simp add: open_breaker_def Since_def Sub_def minInt64_def maxInt64_def)
  note s = breaker_trial_after_cooldown[where cb = open_breaker and w = ?w
      and fn = test_success, OF h1 h2]
  note f = breaker_trial_after_cooldown[where cb = open_breaker and w = ?w
      and fn = test_failure and ?w2.0 = "\<lparr>clock = 250, calls = 1\<rparr>" and ?fn2.0 = test_success,
      OF h1 h2]
  have e1: "Execute open_breaker test_success ?w
     = (None, open_breaker\<lparr>state := StateClosed, failures := 0\<rparr>, ?w1)"
    by (simp add: Execute_def open_breaker_def test_success_def invoke_def Let_def
        Since_def Sub_def minInt64_def maxInt64_def)
  have e2: "Execute open_breaker test_failure ?w
     = (Some (Err ''test error''), open_breaker\<lparr>lastFailTime := 150\<rparr>, ?w1)"
    by (simp add: Execute_def open_breaker_def test_failure_def invoke_def Let_def
        Since_def Sub_def minInt64_def maxInt64_def)
  have c: "\<not> timeout open_breaker < Since (clock \<lparr>clock = 250, calls = Suc 0\<rparr>) 150"
    by (simp add: open_breaker_def Since_def Sub_def minInt64_def maxInt64_def)
  have m: "maxFailures open_breaker \<le> 1" by (simp add: open_breaker_def)
  have part2: "Execute (open_breaker\<lparr>lastFailTime := 150\<rparr>) test_success \<lparr>clock = 250, calls = 1\<rparr>
     = (Some ErrCircuitOpen, open_breaker\<lparr>lastFailTime := 150\<rparr>, \<lparr>clock = 250, calls = 1\<rparr>)"
    using f c m by (simp add: e2 test_failure_def)
  have part3: "fst (Execute (open_breaker_three\<lparr>state := StateHalfOpen, failures := 1, lastFailTime := 150\<rparr>)
          test_failure ?w1) = Some (Err ''test error'')"
    using g m3 by (simp add: e3 test_failure_def)
  have part4: "GetState (fst (feed [(0, test_failure)]
      (open_breaker_three\<lparr>state := StateHalfOpen, failures := 1, lastFailTime := 150\<rparr>) ?w1))
      = StateHalfOpen"
    using g m3 af tf by (simp add: e3 del: feed.simps)
  have part5: "GetState (fst (feed [(0, test_failure), (0, test_failure)]
      (open_breaker_three\<lparr>state := StateHalfOpen, failures := 1, lastFailTime := 150\<rparr>) ?w1))
      = StateOpen \<and>
     calls (snd (feed [(0, test_failure), (0, test_failure)]
      (open_breaker_three\<lparr>state := StateHalfOpen, failures := 1, lastFailTime := 150\<rparr>) ?w1)) = 3"
    using g m3 af tf by (simp add: e3 del: feed.simps)
  show ?thesis using s e1 part2 part3 part4 part5 by (simp add: e2 e3 del: feed.simps)
qed

text \<open>
  Claim C2 as stated fails: a breaker with \<open>maxFailures = 2\<close> and a cooldown of 100 ms is
  opened by two failures; 150 ms later the trial fails, and the breaker reports Half-Open,
  not Open; the call that follows at once is not refused but invokes its function (the
  fourth invocation), and only this second failure re-opens the breaker.
\<close>

theorem failed_trial_does_not_reopen:
  "GetState (fst after_failed_trial) = StateHalfOpen \<and>
   Execute (fst after_failed_trial) test_failure (snd after_failed_trial)
     = (Some (Err ''test error''),
        \<lparr>maxFailures = 2, timeout = 100000000, state = StateOpen, failures = 2,
         lastFailTime = 150000000\<rparr>,
        \<lparr>clock = 150000000, calls = 4\<rparr>)"
  by (simp add: after_failed_trial_def NewCircuitBreaker_def start_world_def test_failure_def
        Execute_def invoke_def Let_def word_le_nat_alt GetState_def
        Since_def Sub_def minInt64_def maxInt64_def)

subsection \<open>Rate limiter: the claims\<close>

lemma wrap64_id: "minInt64 \<le> x \<Longrightarrow> x \<le> maxInt64 \<Longrightarrow> wrap64 x = x"
  by (simp add: wrap64_def minInt64_def maxInt64_def)

lemma sdiv_pos_range:
  fixes a b :: int
  assumes "0 < b" "minInt64 \<le> a" "a \<le> maxInt64"
  shows "minInt64 \<le> a sdiv b" "a sdiv b \<le> maxInt64" "0 \<le> a \<Longrightarrow> a sdiv b = a div b"
    "a < 0 \<Longrightarrow> a sdiv b \<le> 0"
proof -
  have nn: "0 \<le> a \<Longrightarrow> a sdiv b = a div b"
    using assms(1) by (cases "a = 0") (simp_all add: signed_divide_int_def)
  have ng: "a < 0 \<Longrightarrow> a sdiv b = - ((- a) div b)"
    using assms(1) by (simp add: signed_divide_int_def)
  have le: "x div b \<le> x" if "0 \<le> x" for x :: int
    using that int_div_le_self[of x b] by (cases "x = 0") simp_all
  have d1: "0 \<le> a \<Longrightarrow> 0 \<le> a div b \<and> a div b \<le> a"
    using assms(1) le[of a] by (simp add: pos_imp_zdiv_nonneg_iff)
  have d2: "a < 0 \<Longrightarrow> 0 \<le> (- a) div b \<and> (- a) div b \<le> - a"
    using assms(1) le[of "- a"] by (simp add: pos_imp_zdiv_nonneg_iff)
  show "0 \<le> a \<Longrightarrow> a sdiv b = a div b" by (rule nn)
  show "a < 0 \<Longrightarrow> a sdiv b \<le> 0" using ng d2 by simp
  show "minInt64 \<le> a sdiv b"
  proof (cases "0 \<le> a")
    case True
    then show ?thesis using nn d1 by (simp add: minInt64_def)
  next
    case False
    then show ?thesis using ng d2 assms(2) by simp
  qed
  show "a sdiv b \<le> maxInt64"
  proof (cases "0 \<le> a")
    case True
    then show ?thesis using nn d1 assms(3) by simp
  next
    case False
    then show ?thesis using ng d2 by (simp add: maxInt64_def)
  qed
qed

lemma tokensToAdd_eq:
  "0 < interval rl \<Longrightarrow>
   wrap64 (Sub now (lastTime rl) sdiv interval rl) = Sub now (lastTime rl) sdiv interval rl"
  using sdiv_pos_range(1,2)[of "interval rl" "Sub now (lastTime rl)"] Sub_range[of now "lastTime rl"]
  by (simp add: wrap64_id)

lemma Allow_no_refill:
  assumes "0 < interval rl" "Sub now (lastTime rl) sdiv interval rl \<le> 0"
  shows "Allow now rl =
     Some (if 0 < tokens rl then (True, rl\<lparr>tokens := tokens rl - 1\<rparr>) else (False, rl))"
  using assms by (simp add: Allow_def Let_def tokensToAdd_eq)

lemma Allow_refill:
  assumes "0 < interval rl" "0 < Sub now (lastTime rl) sdiv interval rl"
    and "minInt64 \<le> tokens rl"
    and "tokens rl + Sub now (lastTime rl) sdiv interval rl \<le> maxInt64"
  shows "Allow now rl =
     Some (if 0 < min (rate rl) (tokens rl + Sub now (lastTime rl) sdiv interval rl)
           then (True, rl\<lparr>tokens := min (rate rl) (tokens rl + Sub now (lastTime rl) sdiv interval rl) - 1,
                         lastTime := now\<rparr>)
           else (False, rl\<lparr>tokens := min (rate rl) (tokens rl + Sub now (lastTime rl) sdiv interval rl),
                         lastTime := now\<rparr>))"
proof -
  have "wrap64 (tokens rl + Sub now (lastTime rl) sdiv interval rl)
      = tokens rl + Sub now (lastTime rl) sdiv interval rl"
    using assms(2,3,4) by (intro wrap64_id) simp_all
  then show ?thesis using assms(1,2)
    by (simp add: Allow_def Let_def tokensToAdd_eq min_def)
qed

lemma Allow_tokens_le_rate:
  assumes "Allow now rl = Some (ok, rl')" "tokens rl \<le> rate rl"
  shows "tokens rl' \<le> rate rl' \<and> rate rl' = rate rl \<and> interval rl' = interval rl"
  using assms by (auto simp: Allow_def Let_def split: if_splits)

lemma allows_tokens_le_rate:
  "allows ts rl = Some (oks, rl') \<Longrightarrow> tokens rl \<le> rate rl \<Longrightarrow>
   tokens rl' \<le> rate rl' \<and> rate rl' = rate rl \<and> interval rl' = interval rl"
proof (induction ts arbitrary: rl oks)
  case Nil
  then show ?case by simp
next
  case (Cons t ts)
  from Cons.prems(1) obtain ok rl1 oks1 where
    a: "Allow t rl = Some (ok, rl1)" and b: "allows ts rl1 = Some (oks1, rl')"
    by (auto split: option.splits prod.splits)
  from Allow_tokens_le_rate[OF a Cons.prems(2)] Cons.IH[OF b]
  show ?case by simp
qed

lemma Sub_exact: "minInt64 \<le> t - u \<Longrightarrow> t - u \<le> maxInt64 \<Longrightarrow> Sub t u = t - u"
  by (simp add: Sub_def)

lemma Sub_mono_ge: "d \<le> t - u \<Longrightarrow> d \<le> maxInt64 \<Longrightarrow> 0 \<le> d \<Longrightarrow> d \<le> Sub t u"
  by (simp add: Sub_def minInt64_def)

lemma capacity_two_scenario:
  assumes T: "0 < T" "T \<le> maxInt64"
    and t: "t0 \<le> t1" "t1 \<le> t2" "t2 \<le> t3" "t3 < t0 + T" "t3 + T \<le> t4"
  shows "map_option fst (allows [t1, t2, t3, t4] (NewRateLimiter 2 T t0))
     = Some [True, True, False, True]"
proof -
  have none: "Sub tt t0 sdiv T = 0" if "t0 \<le> tt" "tt < t0 + T" for tt
  proof -
    have "Sub tt t0 = tt - t0" using that T by (intro Sub_exact) (simp_all add: minInt64_def)
    moreover have "0 \<le> tt - t0" "tt - t0 < T" using that by simp_all
    ultimately show ?thesis using T sdiv_pos_range(3)[of T "tt - t0"]
      by (simp add: minInt64_def)
  qed
  let ?r0 = "NewRateLimiter 2 T t0"
  have a1: "Allow t1 ?r0 = Some (True, ?r0\<lparr>tokens := 1\<rparr>)"
    using Allow_no_refill[of ?r0 t1] none[of t1] T t by (simp add: NewRateLimiter_def)
  have a2: "Allow t2 (?r0\<lparr>tokens := 1\<rparr>) = Some (True, ?r0\<lparr>tokens := 0\<rparr>)"
    using Allow_no_refill[of "?r0\<lparr>tokens := 1\<rparr>" t2] none[of t2] T t by (simp add: NewRateLimiter_def)
  have a3: "Allow t3 (?r0\<lparr>tokens := 0\<rparr>) = Some (False, ?r0\<lparr>tokens := 0\<rparr>)"
    using Allow_no_refill[of "?r0\<lparr>tokens := 0\<rparr>" t3] none[of t3] T t by (simp add: NewRateLimiter_def)
  let ?k = "Sub t4 t0 sdiv T"
  have ge: "T \<le> Sub t4 t0" using T t by (intro Sub_mono_ge) simp_all
  have r: "minInt64 \<le> Sub t4 t0" "Sub t4 t0 \<le> maxInt64" using Sub_range[of t4 t0] by simp_all
  have kd: "?k = Sub t4 t0 div T" using sdiv_pos_range(3)[OF T(1) r] ge T by simp
  have "1 \<le> Sub t4 t0 div T"
    using ge T(1) int_one_le_iff_zero_less pos_imp_zdiv_pos_iff by blast
  then have k1: "1 \<le> ?k" using kd by simp
  have kmax: "?k \<le> maxInt64" using sdiv_pos_range(2)[OF T(1) r] .
  have a4: "Allow t4 (?r0\<lparr>tokens := 0\<rparr>)
      = Some (True, ?r0\<lparr>tokens := min 2 ?k - 1, lastTime := t4\<rparr>)"
    using Allow_refill[of "?r0\<lparr>tokens := 0\<rparr>" t4] T k1 kmax
    by (simp add: NewRateLimiter_def minInt64_def)
  show ?thesis by (simp add: a1 a2 a3 a4)
qed

text \<open>
  Claim C3, as amended. For a limiter with a positive interval, whose stored count is not below
  the least int64 and for which the count plus the number \<open>k\<close> of whole intervals elapsed
  does not exceed the greatest int64 (so that the addition of the source does not wrap
  around): the refill is computed inside \<^verbatim>\<open>Allow\<close>, from the time elapsed since
  \<open>lastTime\<close>; it adds one token for every whole interval elapsed (\<open>k\<close> is the truncated
  quotient of the elapsed time by the interval, whatever \<open>rate\<close> is), caps the count at
  \<open>rate\<close> and moves \<open>lastTime\<close> to now; with \<open>k \<le> 0\<close> nothing is added; a token is then
  taken if one is there. Without any side condition, in every state reached from
  \<^verbatim>\<open>NewRateLimiter\<close> by calls of \<^verbatim>\<open>Allow\<close> the stored count is at most the capacity.
  With capacity 2 and an interval \<open>T\<close> that is a positive duration, of three acquisitions
  made less than \<open>T\<close> after creation the first two succeed and the third fails, and an
  acquisition at least \<open>T\<close> after the third succeeds.
\<close>

theorem rate_limiter_refill_and_capacity:
  "(0 < interval rl \<and> minInt64 \<le> tokens rl \<and>
    tokens rl + Sub now (lastTime rl) sdiv interval rl \<le> maxInt64 \<longrightarrow>
      (let k = Sub now (lastTime rl) sdiv interval rl;
           avail = (if 0 < k then min (rate rl) (tokens rl + k) else tokens rl)
       in Allow now rl =
            Some (0 < avail,
                  rl\<lparr>tokens := (if 0 < avail then avail - 1 else avail),
                     lastTime := (if 0 < k then now else lastTime rl)\<rparr>))) \<and>
   (allows ts (NewRateLimiter r i t0) = Some (oks, rl') \<longrightarrow> tokens rl' \<le> r) \<and>
   (0 < T \<and> T \<le> maxInt64 \<and> u0 \<le> u1 \<and> u1 \<le> u2 \<and> u2 \<le> u3 \<and> u3 < u0 + T \<and> u3 + T \<le> u4 \<longrightarrow>
      map_option fst (allows [u1, u2, u3, u4] (NewRateLimiter 2 T u0))
        = Some [True, True, False, True])"
proof (intro conjI impI)
  assume a: "0 < interval rl \<and> minInt64 \<le> tokens rl \<and>
    tokens rl + Sub now (lastTime rl) sdiv interval rl \<le> maxInt64"
  show "let k = Sub now (lastTime rl) sdiv interval rl;
           avail = (if 0 < k then min (rate rl) (tokens rl + k) else tokens rl)
       in Allow now rl =
            Some (0 < avail,
                  rl\<lparr>tokens := (if 0 < avail then avail - 1 else avail),
                     lastTime := (if 0 < k then now else lastTime rl)\<rparr>)"
  proof (cases "0 < Sub now (lastTime rl) sdiv interval rl")
    case True
    then show ?thesis using Allow_refill[of rl now] a by (simp add: Let_def)
  next
    case False
    then show ?thesis using Allow_no_refill[of rl now] a by (simp add: Let_def)
  qed
next
  assume "allows ts (NewRateLimiter r i t0) = Some (oks, rl')"
  from allows_tokens_le_rate[OF this] show "tokens rl' \<le> r"
    by (simp add: NewRateLimiter_def)
next
  assume "0 < T \<and> T \<le> maxInt64 \<and> u0 \<le> u1 \<and> u1 \<le> u2 \<and> u2 \<le> u3 \<and> u3 < u0 + T \<and> u3 + T \<le> u4"
  then show "map_option fst (allows [u1, u2, u3, u4] (NewRateLimiter 2 T u0))
        = Some [True, True, False, True]"
    using capacity_two_scenario[of T u0 u1 u2 u3 u4] by simp
qed

lemma Allow_drained:
  "Allow 100000000 drained
     = Some (True, \<lparr>rate = 2, interval = 100000000, tokens = 0, lastTime = 100000000\<rparr>)"
  by (simp add: Allow_def drained_def Let_def Sub_def wrap64_def minInt64_def maxInt64_def
      signed_divide_int_def)

lemma allows_test:
  "allows [0, 0, 0, 150000000] (NewRateLimiter 2 100000000 0)
     = Some ([True, True, False, True],
             \<lparr>rate = 2, interval = 100000000, tokens = 0, lastTime = 150000000\<rparr>)"
  by (simp add: Allow_def NewRateLimiter_def Let_def Sub_def wrap64_def minInt64_def maxInt64_def
      signed_divide_int_def)

theorem rate_limiter_refill_and_capacity_witness:
  "Allow 250000000 drained
     = Some (True, \<lparr>rate = 2, interval = 100000000, tokens = 1, lastTime = 250000000\<rparr>) \<and>
   tokens (snd (the (allows [0, 0, 0, 150000000] (NewRateLimiter 2 100000000 0)))) \<le> 2 \<and>
   map_option fst (allows [0, 0, 0, 150000000] (NewRateLimiter 2 100000000 0))
     = Some [True, True, False, True]"
  using rate_limiter_refill_and_capacity[of drained 250000000 "[0, 0, 0, 150000000]" 2 100000000 0
      "[True, True, False, True]"
      "\<lparr>rate = 2, interval = 100000000, tokens = 0, lastTime = 150000000\<rparr>"
      100000000 0 0 0 0 150000000]
  by (simp add: allows_test drained_def Let_def Sub_def minInt64_def maxInt64_def
      signed_divide_int_def del: allows.simps)

text \<open>
  Claim C3 as stated fails: one interval after a limiter of capacity (and \<open>rate\<close>) 2 was
  drained, \<^verbatim>\<open>Allow\<close> finds one token, not two: it succeeds and leaves none, and a
  second acquisition at the same instant fails. Adding \<open>rate\<close> tokens per interval, as the
  claim reads, would have refilled both.
\<close>

theorem refill_is_one_token_per_interval:
  "Allow 100000000 drained
     = Some (True, \<lparr>rate = 2, interval = 100000000, tokens = 0, lastTime = 100000000\<rparr>) \<and>
   spec_replenished 100000000 drained = 2 \<and>
   map_option fst (allows [0, 0, 100000000, 100000000] (NewRateLimiter 2 100000000 0))
     = Some [True, True, True, False]"
  by (simp add: Allow_def drained_def NewRateLimiter_def spec_replenished_def Let_def Sub_def
      wrap64_def minInt64_def maxInt64_def signed_divide_int_def)

subsection \<open>Recognised text: the claim\<close>

lemma foldl_append_each: "foldl (\<lambda>a x. a @ f x) acc xs = acc @ concat (map f xs)"
  by (induction xs arbitrary: acc) simp_all

lemma concat_map_concat:
  "concat (map (\<lambda>c. concat (map g (h c))) cs) = concat (map g (concat (map h cs)))"
  by (induction cs) simp_all

lemma GetFullText_concat:
  "GetFullText r = concat (map (\<lambda>alt. Text alt @ '' '') (concat (map Alternatives (Chunks r))))"
proof -
  have "GetFullText r
      = foldl (\<lambda>text chunk. text @ concat (map (\<lambda>alt. Text alt @ '' '') (Alternatives chunk)))
          [] (Chunks r)"
    unfolding GetFullText_def by (simp only: foldl_append_each)
  also have "\<dots> = concat (map (\<lambda>chunk. concat (map (\<lambda>alt. Text alt @ '' '') (Alternatives chunk)))
      (Chunks r))"
    by (simp only: foldl_append_each append_Nil)
  finally show ?thesis by (simp only: concat_map_concat)
qed

text \<open>
  Claim C8. For the result with the segments "hello" and "world", in that order and with one
  alternative each, \<^verbatim>\<open>GetFullText\<close> is exactly \<open>''hello world ''\<close>. In general the text is
  the concatenation, in segment order, of every alternative's text followed by one space, so
  each segment contributes its text and a trailing space.
\<close>

theorem GetFullText_hello_world:
  "GetFullText hello_world = ''hello world '' \<and>
   GetFullText \<lparr>Chunks = map single texts\<rparr> = concat (map (\<lambda>t. t @ '' '') texts) \<and>
   GetFullText r = concat (map (\<lambda>alt. Text alt @ '' '') (concat (map Alternatives (Chunks r))))"
proof -
  have m: "GetFullText \<lparr>Chunks = map single ts\<rparr> = concat (map (\<lambda>t. t @ '' '') ts)" for ts
    unfolding GetFullText_concat by (induction ts) (simp_all add: single_def)
  have h: "GetFullText hello_world = ''hello world ''"
    using m[of "[''hello'', ''world'']"] by (simp add: hello_world_def)
  show ?thesis using h m GetFullText_concat by blast
qed

subsection \<open>The tasks table: one row per message\<close>



lemma not_uuid: "\<not> is_uuid ''id-1''"
  by code_simp




















lemma find_key_update:
  "\<forall>r. k r = i \<longrightarrow> k (f r) = i \<Longrightarrow>
   find (\<lambda>r. k r = j) (map (\<lambda>r. if k r = i then f r else r) rows)
   = map_option (\<lambda>r. if k r = i then f r else r) (find (\<lambda>r. k r = j) rows)"
  by (induction rows) auto






lemma handleTaskError_task:
  "fst (handleTaskError env s task msg)
     = task\<lparr>Status := TaskStatusFailed, ErrorText := Some msg, UpdatedAt := timeNow env AtFailed,
            Attempts := wrap64 (Attempts task + 1)\<rparr>"
  by (simp add: handleTaskError_def Let_def IncrementAttempts_def SetError_def)

lemma handleTaskError_sent:
  "snd (snd (handleTaskError env s task msg))
     = (if 3 \<le> wrap64 (Attempts task + 1)
        then [(ChatID task, TelegramMessageID task, FailureNotice)] else [])"
  by (simp add: handleTaskError_def Let_def IncrementAttempts_def SetError_def)





subsection \<open>Idempotent ingress: the claim\<close>







end
